theory Spec2Isabelle
  imports Main "HOL-Library.Sublist"
begin

section \<open>Strings\<close>

text \<open>
  A Python \<open>str\<close> is a sequence of Unicode code points, here a list of natural numbers;
  \<open>py\<close> writes such a string from its ASCII characters.
\<close>

type_synonym str = "nat list"

definition py :: "string \<Rightarrow> str" where
  "py cs = map of_char cs"

text \<open>
  What \<open>str.strip()\<close> and \<open>str.title()\<close> do with a code point is decided by the Unicode
  database of the Python runtime, which is not part of index.py. The database is a
  parameter of the model: \<open>isspace\<close> is \<open>Py_UNICODE_ISSPACE\<close>, \<open>iscased\<close> is
  \<open>_PyUnicode_IsCased\<close>, \<open>totitle\<close> is \<open>_PyUnicode_ToTitleFull\<close> (one code point may map to
  several), and \<open>lower_ucs4 data i c\<close> is the lower-casing of the code point \<open>c\<close> at
  position \<open>i\<close> of the string \<open>data\<close> (CPython looks at the context for a capital sigma).
\<close>

record ucd =
  isspace :: "nat \<Rightarrow> bool"
  iscased :: "nat \<Rightarrow> bool"
  totitle :: "nat \<Rightarrow> str"
  lower_ucs4 :: "str \<Rightarrow> nat \<Rightarrow> nat \<Rightarrow> str"

text \<open>\<open>str.strip()\<close>: the white space at both ends is removed.\<close>

definition strip :: "ucd \<Rightarrow> str \<Rightarrow> str" where
  "strip db s = rev (dropWhile (isspace db) (rev (dropWhile (isspace db) s)))"

text \<open>
  \<open>str.title()\<close>: one pass over the string with the flag "the previous character was
  cased"; a character after a cased one is lowered, any other is title-cased.
\<close>

fun title_loop :: "ucd \<Rightarrow> str \<Rightarrow> nat \<Rightarrow> bool \<Rightarrow> str \<Rightarrow> str" where
  "title_loop db data i previous_is_cased [] = []"
| "title_loop db data i previous_is_cased (c # cs) =
     (if previous_is_cased then lower_ucs4 db data i c else totitle db c)
       @ title_loop db data (Suc i) (iscased db c) cs"

definition title :: "ucd \<Rightarrow> str \<Rightarrow> str" where
  "title db s = title_loop db s 0 False s"

text \<open>\<open>str(n)\<close> of a Python int: the decimal digits, with a minus sign below zero.\<close>

fun digits :: "nat \<Rightarrow> str" where
  "digits n = (if n < 10 then [48 + n] else digits (n div 10) @ [48 + n mod 10])"

declare digits.simps [simp del]

definition str_int :: "int \<Rightarrow> str" where
  "str_int i = (if i < 0 then py ''-'' @ digits (nat (- i)) else digits (nat i))"

section \<open>Column-name normalisation (index.py, lines 53 to 67)\<close>

text \<open>
  Line 53: \<open>df.columns = [str(col).strip().title() for col in df.columns]\<close>. The raw names
  are taken after \<open>str(col)\<close>, as strings.
\<close>

definition normalize_names :: "ucd \<Rightarrow> str list \<Rightarrow> str list" where
  "normalize_names db cols = map (\<lambda>col. title db (strip db col)) cols"

text \<open>
  Lines 56 to 66, \<open>make_unique\<close>: the dict \<open>seen\<close> is a map from names to Python ints, the
  list \<open>result\<close> is appended to, and the \<open>for\<close> loop is the recursion over \<open>cols\<close>.
\<close>

fun make_unique_loop :: "(str \<rightharpoonup> int) \<Rightarrow> str list \<Rightarrow> str list \<Rightarrow> str list" where
  "make_unique_loop seen result [] = result"
| "make_unique_loop seen result (col # cols) =
     (case seen col of
        None \<Rightarrow> make_unique_loop (seen(col \<mapsto> 0)) (result @ [col]) cols
      | Some n \<Rightarrow>
          make_unique_loop (seen(col \<mapsto> n + 1)) (result @ [col @ py ''_'' @ str_int (n + 1)]) cols)"

definition make_unique :: "str list \<Rightarrow> str list" where
  "make_unique cols = make_unique_loop Map.empty [] cols"

text \<open>Lines 53 and 67 together: what \<open>df.columns\<close> holds after the normalisation.\<close>

definition normalize_columns :: "ucd \<Rightarrow> str list \<Rightarrow> str list" where
  "normalize_columns db cols = make_unique (normalize_names db cols)"

subsection \<open>The normaliser as the specification words it\<close>

text \<open>
  Trimmed: the name without its leading and its trailing run of white space.
\<close>

definition trim_spec :: "ucd \<Rightarrow> str \<Rightarrow> str" where
  "trim_spec db s =
     (let leading = length (takeWhile (isspace db) s);
          trailing = length (takeWhile (isspace db) (rev s))
      in take (length s - leading - trailing) (drop leading s))"

text \<open>
  Title-cased: a character that follows a cased character is in lower case, every other
  character (the first of each word) is in title case.
\<close>

definition title_spec :: "ucd \<Rightarrow> str \<Rightarrow> str" where
  "title_spec db s =
     concat (map (\<lambda>i. if 0 < i \<and> iscased db (s ! (i - 1)) then lower_ucs4 db s i (s ! i)
                      else totitle db (s ! i)) [0..<length s])"

text \<open>
  Suffixed: a name that was seen \<open>k > 0\<close> times before gets the suffix \<open>_k\<close>, a name not
  seen before stays bare.
\<close>

fun suffix_duplicates :: "str list \<Rightarrow> str list \<Rightarrow> str list" where
  "suffix_duplicates earlier [] = []"
| "suffix_duplicates earlier (name # names) =
     (let k = count_list earlier name
      in (if k = 0 then name else name @ py ''_'' @ str_int (int k)))
        # suffix_duplicates (earlier @ [name]) names"

definition normalizer_spec :: "ucd \<Rightarrow> str list \<Rightarrow> str list" where
  "normalizer_spec db raw =
     suffix_duplicates [] (map (\<lambda>col. title_spec db (trim_spec db col)) raw)"

subsection \<open>The database on ASCII\<close>

text \<open>
  On the ASCII code points Unicode says: white space is the tab, the line feed, the
  vertical tab, the form feed, the carriage return, the separators 0x1C to 0x1F and the
  space; the cased characters are the letters; title case of a small letter is the capital
  letter and lower case of a capital letter is the small one. \<open>ascii_db\<close> is the database
  that says so and treats every other code point as uncased and not white space; it serves
  to run the definitions on ASCII text, where every database that agrees with it on ASCII
  (as that of Python does) gives the same results.
\<close>

definition ascii_db :: ucd where
  "ascii_db =
     \<lparr>isspace = (\<lambda>c. (9 \<le> c \<and> c \<le> 13) \<or> (28 \<le> c \<and> c \<le> 32)),
      iscased = (\<lambda>c. (65 \<le> c \<and> c \<le> 90) \<or> (97 \<le> c \<and> c \<le> 122)),
      totitle = (\<lambda>c. [if 97 \<le> c \<and> c \<le> 122 then c - 32 else c]),
      lower_ucs4 = (\<lambda>data i c. [if 65 \<le> c \<and> c \<le> 90 then c + 32 else c])\<rparr>"

definition agrees_on_ascii :: "ucd \<Rightarrow> bool" where
  "agrees_on_ascii db =
     (\<forall>c<128. isspace db c = isspace ascii_db c
            \<and> iscased db c = iscased ascii_db c
            \<and> totitle db c = totitle ascii_db c
            \<and> (\<forall>data i. lower_ucs4 db data i c = lower_ucs4 ascii_db data i c))"

definition is_ascii :: "str \<Rightarrow> bool" where
  "is_ascii s = list_all (\<lambda>c. c < 128) s"

section \<open>Tables\<close>

text \<open>
  A cell of a sheet is a string, a number or empty (\<open>NaN\<close>/\<open>None\<close>, what \<open>isnull\<close> tests).
  The type \<open>'n\<close> of the numbers (Python ints, int64, float64) is left open.
  A DataFrame is its column labels and its rows, each row holding one cell per column,
  by position (labels may repeat, so a row is not a map from labels).
\<close>

datatype 'n cell = Str str | Num 'n | Empty

fun is_na :: "'n cell \<Rightarrow> bool" where
  "is_na Empty = True"
| "is_na (Str s) = False"
| "is_na (Num n) = False"

record 'n table =
  columns :: "str list"
  rows :: "'n cell list list"

text \<open>A DataFrame is rectangular: every row has one cell for each column.\<close>

definition wf_table :: "'n table \<Rightarrow> bool" where
  "wf_table t = list_all (\<lambda>r. length r = length (columns t)) (rows t)"

text \<open>Boolean-mask indexing, \<open>xs[keep]\<close>: the entries whose flag is set, in order.\<close>

definition select :: "bool list \<Rightarrow> 'a list \<Rightarrow> 'a list" where
  "select keep xs = map snd (filter fst (zip keep xs))"

section \<open>Cleaning (index.py, lines 70 to 73)\<close>

text \<open>Line 70: \<open>df.applymap(lambda x: x.strip() if isinstance(x, str) else x)\<close>.\<close>

fun strip_cell :: "ucd \<Rightarrow> 'n cell \<Rightarrow> 'n cell" where
  "strip_cell db (Str s) = Str (strip db s)"
| "strip_cell db (Num n) = Num n"
| "strip_cell db Empty = Empty"

definition applymap :: "('n cell \<Rightarrow> 'n cell) \<Rightarrow> 'n table \<Rightarrow> 'n table" where
  "applymap f t = t\<lparr>rows := map (map f) (rows t)\<rparr>"

text \<open>
  \<open>duplicated()\<close> flags every entry that equals an earlier one (empty cells compare equal
  to each other there); line 71, \<open>drop_duplicates()\<close>, keeps the rows that are not flagged.
\<close>

fun duplicated_loop :: "'a list \<Rightarrow> 'a list \<Rightarrow> bool list" where
  "duplicated_loop seen [] = []"
| "duplicated_loop seen (x # xs) = (x \<in> set seen) # duplicated_loop (x # seen) xs"

definition duplicated :: "'a list \<Rightarrow> bool list" where
  "duplicated xs = duplicated_loop [] xs"

definition drop_duplicates :: "'n table \<Rightarrow> 'n table" where
  "drop_duplicates t = t\<lparr>rows := select (map Not (duplicated (rows t))) (rows t)\<rparr>"

text \<open>Line 72: \<open>dropna(how='all')\<close> drops the rows whose cells are all empty.\<close>

definition dropna_rows :: "'n table \<Rightarrow> 'n table" where
  "dropna_rows t = t\<lparr>rows := filter (\<lambda>r. \<not> list_all is_na r) (rows t)\<rparr>"

text \<open>
  Line 73: \<open>dropna(axis=1, how='all')\<close> drops the columns whose cells are all empty:
  column \<open>j\<close> stays when some row has a value there.
\<close>

definition notna_mask :: "nat \<Rightarrow> 'n cell list list \<Rightarrow> bool list" where
  "notna_mask n rs = map (\<lambda>j. list_ex (\<lambda>r. \<not> is_na (r ! j)) rs) [0..<n]"

definition notna_columns :: "'n table \<Rightarrow> bool list" where
  "notna_columns t = notna_mask (length (columns t)) (rows t)"

definition dropna_columns :: "'n table \<Rightarrow> 'n table" where
  "dropna_columns t =
     \<lparr>columns = select (notna_columns t) (columns t),
      rows = map (select (notna_columns t)) (rows t)\<rparr>"

definition clean :: "ucd \<Rightarrow> 'n table \<Rightarrow> 'n table" where
  "clean db t = dropna_columns (dropna_rows (drop_duplicates (applymap (strip_cell db) t)))"

text \<open>
  The rows that \<open>clean\<close> keeps, as they are before the empty columns are dropped, and the
  mask of the columns that it keeps, over the columns of its input.
\<close>

definition kept_rows :: "ucd \<Rightarrow> 'n table \<Rightarrow> 'n cell list list" where
  "kept_rows db t = rows (dropna_rows (drop_duplicates (applymap (strip_cell db) t)))"

definition kept_columns :: "ucd \<Rightarrow> 'n table \<Rightarrow> bool list" where
  "kept_columns db t =
     notna_columns (dropna_rows (drop_duplicates (applymap (strip_cell db) t)))"

section \<open>Selecting columns by label\<close>

datatype error =
  KeyError str | DuplicateLabel str | ValueError | TypeError | StreamlitAPIException

text \<open>
  The select boxes offer the labels of \<open>df.columns\<close>. A label that names exactly one column
  selects it; a missing label raises \<open>KeyError\<close>. With a repeated label pandas selects a
  frame of several columns, which the steps below do not expect: that case is the error
  \<open>DuplicateLabel\<close> and is not modelled further.
\<close>

definition column_index :: "'n table \<Rightarrow> str \<Rightarrow> error + nat" where
  "column_index t label =
     (case filter (\<lambda>j. columns t ! j = label) [0..<length (columns t)] of
        [] \<Rightarrow> Inl (KeyError label)
      | [j] \<Rightarrow> Inr j
      | _ \<Rightarrow> Inl (DuplicateLabel label))"

definition get_column :: "'n table \<Rightarrow> str \<Rightarrow> error + 'n cell list" where
  "get_column t label =
     (case column_index t label of
        Inl e \<Rightarrow> Inl e
      | Inr j \<Rightarrow> Inr (map (\<lambda>r. r ! j) (rows t)))"

text \<open>The assignment \<open>df[label] = values\<close> to an existing column.\<close>

definition set_column :: "'n table \<Rightarrow> str \<Rightarrow> 'n cell list \<Rightarrow> error + 'n table" where
  "set_column t label vs =
     (case column_index t label of
        Inl e \<Rightarrow> Inl e
      | Inr j \<Rightarrow> Inr (t\<lparr>rows := map (\<lambda>(r, v). r[j := v]) (zip (rows t) vs)\<rparr>))"

section \<open>Grouping\<close>

text \<open>
  \<open>df.groupby(keys)[target].agg()\<close>: the rows with an empty key cell belong to no group
  (\<open>dropna=True\<close> is the default of \<open>groupby\<close>); there is one group for each distinct key
  among the others, and the aggregate is taken over the target cells of the group.
  pandas lists the groups sorted by key; here they stand in order of first appearance,
  the result being read as a mapping from keys to aggregates. When the target is itself
  a grouping column, the frame that pandas returns holds the aggregate under that label
  and no key column for it; the model keeps every key beside the aggregate.
\<close>

definition group_keys :: "('n cell list \<times> 'n cell) list \<Rightarrow> 'n cell list list" where
  "group_keys recs = (let ks = map fst recs in select (map Not (duplicated ks)) ks)"

definition grouped ::
  "'n cell list list \<Rightarrow> 'n cell list \<Rightarrow> ('n cell list \<times> 'n cell list) list" where
  "grouped keys vs =
     (let recs = filter (\<lambda>(k, v). \<not> list_ex is_na k) (zip keys vs)
      in map (\<lambda>k. (k, map snd (filter (\<lambda>(k', v). k' = k) recs))) (group_keys recs))"

text \<open>\<open>count()\<close>: the number of non-empty cells of the group.\<close>

definition count_notna :: "'n cell list \<Rightarrow> nat" where
  "count_notna vs = length (filter (\<lambda>v. \<not> is_na v) vs)"

definition groupby_count ::
  "'n cell list list \<Rightarrow> 'n cell list \<Rightarrow> ('n cell list \<times> nat) list" where
  "groupby_count keys vs = map (\<lambda>(k, g). (k, count_notna g)) (grouped keys vs)"

text \<open>
  What pandas does with numbers is a parameter too: \<open>parse_num\<close> reads a string as a
  number for \<open>pd.to_numeric\<close> (\<open>None\<close> when it is not one), and \<open>sum_nums\<close> adds the numbers
  of one group (int64 wraps around, float64 is summed with compensation, Python objects
  are added with \<open>+\<close>; the sum of no number is 0).
\<close>

record 'n numeric =
  parse_num :: "str \<Rightarrow> 'n option"
  sum_nums :: "'n list \<Rightarrow> 'n"

text \<open>
  \<open>sum()\<close> of one group: empty cells are skipped. Numbers are added; in a column of
  Python objects the values are added with \<open>+\<close> from the first on, which concatenates
  strings and raises \<open>TypeError\<close> on a string and a number.
\<close>

definition sum_cells :: "'n numeric \<Rightarrow> 'n cell list \<Rightarrow> error + 'n cell" where
  "sum_cells np vs =
     (let present = filter (\<lambda>v. \<not> is_na v) vs;
          nums = [n. Num n \<leftarrow> present];
          strs = [s. Str s \<leftarrow> present]
      in if length nums = length present then Inr (Num (sum_nums np nums))
         else if length strs = length present then Inr (Str (concat strs))
         else Inl TypeError)"

fun sum_groups ::
  "'n numeric \<Rightarrow> ('n cell list \<times> 'n cell list) list \<Rightarrow> error + ('n cell list \<times> 'n cell) list" where
  "sum_groups np [] = Inr []"
| "sum_groups np ((k, g) # gs) =
     (case sum_cells np g of
        Inl e \<Rightarrow> Inl e
      | Inr s \<Rightarrow> (case sum_groups np gs of Inl e \<Rightarrow> Inl e | Inr ss \<Rightarrow> Inr ((k, s) # ss)))"

definition groupby_sum ::
  "'n numeric \<Rightarrow> 'n cell list list \<Rightarrow> 'n cell list \<Rightarrow> error + ('n cell list \<times> 'n cell) list" where
  "groupby_sum np keys vs = sum_groups np (grouped keys vs)"

section \<open>Aggregation (index.py, lines 85 and 89)\<close>

text \<open>
  \<open>resumo\<close>: the count of the non-empty cells of \<open>col_pessoa\<close> for each pair of values of
  \<open>col_unidade\<close> and \<open>col_carteira\<close>; \<open>resumo_unidade\<close>: the same for each value of
  \<open>col_unidade\<close> alone. With \<open>as_index=False\<close> pandas inserts into the result every
  grouping column whose label is not in it yet: when both grouping labels are the same
  and the target is another column, the second insertion raises \<open>ValueError\<close> (cannot
  insert, already exists). The renaming of the count column is not modelled.
\<close>

definition resumo ::
  "'n table \<Rightarrow> str \<Rightarrow> str \<Rightarrow> str \<Rightarrow> error + ('n cell list \<times> nat) list" where
  "resumo df col_unidade col_carteira col_pessoa =
     (case get_column df col_unidade of
        Inl e \<Rightarrow> Inl e
      | Inr us \<Rightarrow>
          (case get_column df col_carteira of
             Inl e \<Rightarrow> Inl e
           | Inr cs \<Rightarrow>
               (case get_column df col_pessoa of
                  Inl e \<Rightarrow> Inl e
                | Inr ps \<Rightarrow>
                    if col_unidade = col_carteira \<and> col_pessoa \<noteq> col_unidade
                    then Inl ValueError
                    else Inr (groupby_count (map (\<lambda>(u, c). [u, c]) (zip us cs)) ps))))"

definition resumo_unidade :: "'n table \<Rightarrow> str \<Rightarrow> str \<Rightarrow> error + ('n cell list \<times> nat) list" where
  "resumo_unidade df col_unidade col_pessoa =
     (case get_column df col_unidade of
        Inl e \<Rightarrow> Inl e
      | Inr us \<Rightarrow>
          (case get_column df col_pessoa of
             Inl e \<Rightarrow> Inl e
           | Inr ps \<Rightarrow> Inr (groupby_count (map (\<lambda>u. [u]) us) ps)))"

section \<open>Inconsistencies (index.py, lines 94 to 104)\<close>

text \<open>
  The two warnings: \<open>Valores_ausentes\<close> is "Existem valores ausentes na base." and
  \<open>Linhas_duplicadas\<close> is "Existem linhas duplicadas na base.".
\<close>

datatype inconsistencia = Valores_ausentes | Linhas_duplicadas

definition inconsistencias :: "'n table \<Rightarrow> inconsistencia list" where
  "inconsistencias df =
     (if list_ex (list_ex is_na) (rows df) then [Valores_ausentes] else [])
     @ (if list_ex (\<lambda>d. d) (duplicated (rows df)) then [Linhas_duplicadas] else [])"

section \<open>Dashboards (index.py, lines 106 to 150)\<close>

text \<open>
  \<open>pd.to_numeric(..., errors='coerce')\<close> on one cell: a number stays, a string becomes the
  number it reads as or empty, empty stays empty.
\<close>

fun to_numeric :: "'n numeric \<Rightarrow> 'n cell \<Rightarrow> 'n cell" where
  "to_numeric np (Num n) = Num n"
| "to_numeric np (Str s) = (case parse_num np s of None \<Rightarrow> Empty | Some n \<Rightarrow> Num n)"
| "to_numeric np Empty = Empty"

text \<open>
  What a dashboard shows: the data handed to \<open>px.bar\<close> or \<open>px.pie\<close>, or the warning
  "Nao ha dados numericos suficientes para gerar o grafico de pizza." of line 126.
\<close>

datatype 'n figure =
  Bar "('n cell \<times> 'n cell \<times> 'n cell) list"
  | Pie "('n cell list \<times> 'n cell) list"
  | Sem_dados_numericos
  | Bar_unidade "('n cell list \<times> 'n cell) list"

datatype tipo = Barras | Pizza

text \<open>Lines 112 to 120: the bar chart reads x, y and colour from three columns of \<open>df\<close>.\<close>

definition grafico_barras :: "'n table \<Rightarrow> str \<Rightarrow> str \<Rightarrow> str \<Rightarrow> error + 'n figure" where
  "grafico_barras df col_carteira col_valor col_unidade =
     (case get_column df col_carteira of
        Inl e \<Rightarrow> Inl e
      | Inr xs \<Rightarrow>
          (case get_column df col_valor of
             Inl e \<Rightarrow> Inl e
           | Inr ys \<Rightarrow>
               (case get_column df col_unidade of
                  Inl e \<Rightarrow> Inl e
                | Inr colours \<Rightarrow> Inr (Bar (zip xs (zip ys colours))))))"

text \<open>
  Lines 122 to 134: the sums per \<open>col_carteira\<close> are taken first, on the cells as they are;
  the sums are then coerced to numbers and the groups whose sum is empty are dropped.
\<close>

definition grafico_pizza :: "'n numeric \<Rightarrow> 'n table \<Rightarrow> str \<Rightarrow> str \<Rightarrow> error + 'n figure" where
  "grafico_pizza np df col_carteira col_valor =
     (case get_column df col_carteira of
        Inl e \<Rightarrow> Inl e
      | Inr ks \<Rightarrow>
          (case get_column df col_valor of
             Inl e \<Rightarrow> Inl e
           | Inr vs \<Rightarrow>
               (case groupby_sum np (map (\<lambda>k. [k]) ks) vs of
                  Inl e \<Rightarrow> Inl e
                | Inr sums \<Rightarrow>
                    (let coerced = map (\<lambda>(k, s). (k, to_numeric np s)) sums;
                         resumo_pizza = filter (\<lambda>(k, s). \<not> is_na s) coerced
                     in if resumo_pizza = [] then Inr Sem_dados_numericos
                        else Inr (Pie resumo_pizza)))))"

definition dashboard_carteiras ::
  "'n numeric \<Rightarrow> 'n table \<Rightarrow> tipo \<Rightarrow> str \<Rightarrow> str \<Rightarrow> str \<Rightarrow> error + 'n figure" where
  "dashboard_carteiras np df tipo_grafico col_carteira col_valor col_unidade =
     (case tipo_grafico of
        Barras \<Rightarrow> grafico_barras df col_carteira col_valor col_unidade
      | Pizza \<Rightarrow> grafico_pizza np df col_carteira col_valor)"

text \<open>
  Line 139 assigns to \<open>df\<close>: the chosen column is replaced by its cells coerced to numbers.
  Line 140 sums the new column per \<open>col_unidade\<close>. The step returns the table it leaves.
\<close>

definition coerce_column :: "'n numeric \<Rightarrow> 'n table \<Rightarrow> str \<Rightarrow> error + 'n table" where
  "coerce_column np df label =
     (case get_column df label of
        Inl e \<Rightarrow> Inl e
      | Inr vs \<Rightarrow> set_column df label (map (to_numeric np) vs))"

definition dashboard_unidade ::
  "'n numeric \<Rightarrow> 'n table \<Rightarrow> str \<Rightarrow> str \<Rightarrow> error + ('n table \<times> 'n figure)" where
  "dashboard_unidade np df col_unidade col_valor_unidade =
     (case coerce_column np df col_valor_unidade of
        Inl e \<Rightarrow> Inl e
      | Inr df' \<Rightarrow>
          (case get_column df' col_unidade of
             Inl e \<Rightarrow> Inl e
           | Inr us \<Rightarrow>
               (case get_column df' col_valor_unidade of
                  Inl e \<Rightarrow> Inl e
                | Inr vs \<Rightarrow>
                    (case groupby_sum np (map (\<lambda>u. [u]) us) vs of
                       Inl e \<Rightarrow> Inl e
                     | Inr sums \<Rightarrow> Inr (df', Bar_unidade sums)))))"

section \<open>The steps after cleaning, in the order of the script (lines 79 to 150)\<close>

record 'n outputs =
  out_resumo :: "('n cell list \<times> nat) list"
  out_resumo_unidade :: "('n cell list \<times> nat) list"
  out_inconsistencias :: "inconsistencia list"
  out_dashboard :: "'n figure"
  out_valor_unidade :: "'n figure"

text \<open>
  The script threads the one variable \<open>df\<close> through the steps; an exception in a step stops
  the run. The result is the table that \<open>df\<close> holds at the end, and what was shown.
\<close>

definition downstream ::
  "'n numeric \<Rightarrow> 'n table \<Rightarrow> str \<Rightarrow> str \<Rightarrow> str \<Rightarrow> tipo \<Rightarrow> str \<Rightarrow> str
     \<Rightarrow> error + ('n table \<times> 'n outputs)" where
  "downstream np df col_unidade col_carteira col_pessoa tipo_grafico col_valor col_valor_unidade =
     (case resumo df col_unidade col_carteira col_pessoa of
        Inl e \<Rightarrow> Inl e
      | Inr r \<Rightarrow>
          (case resumo_unidade df col_unidade col_pessoa of
             Inl e \<Rightarrow> Inl e
           | Inr ru \<Rightarrow>
               (case dashboard_carteiras np df tipo_grafico col_carteira col_valor col_unidade of
                  Inl e \<Rightarrow> Inl e
                | Inr fig \<Rightarrow>
                    (case dashboard_unidade np df col_unidade col_valor_unidade of
                       Inl e \<Rightarrow> Inl e
                     | Inr (df', fig_valor_unidade) \<Rightarrow>
                         Inr (df',
                              \<lparr>out_resumo = r, out_resumo_unidade = ru,
                               out_inconsistencias = inconsistencias df,
                               out_dashboard = fig,
                               out_valor_unidade = fig_valor_unidade\<rparr>)))))"

section \<open>The header-row input (index.py, lines 44 to 47)\<close>

text \<open>
  \<open>st.number_input(min_value, max_value, value)\<close>: Streamlit raises when the default
  \<open>value\<close> lies outside the bounds (so also when the bounds are empty); otherwise the
  widget holds the number the user entered when it lies within the bounds, and the
  default when it does not.
\<close>

definition number_input :: "int \<Rightarrow> int \<Rightarrow> int \<Rightarrow> int \<Rightarrow> error + int" where
  "number_input min_value max_value val entered =
     (if val < min_value \<or> max_value < val then Inl StreamlitAPIException
      else if min_value \<le> entered \<and> entered \<le> max_value then Inr entered
      else Inr val)"

text \<open>\<open>len_base_dados\<close> is \<open>len(base_dados)\<close>, the number of rows of the sheet as first read.\<close>

definition linha_cabecalho :: "nat \<Rightarrow> int \<Rightarrow> error + int" where
  "linha_cabecalho len_base_dados entered =
     number_input 0 (min 50 (int len_base_dados - 1)) 0 entered"

section \<open>Decimal integers\<close>

text \<open>
  A reader of the strings of decimal digits with an optional minus sign, and with it the
  numbers for the concrete runs below: integers, read in decimal and added as integers.
  The runs use the reader on strings of digits, which \<open>pd.to_numeric\<close> reads as the same
  numbers, and on strings with letters in them, which it rejects too.
\<close>

definition digit_val :: "nat \<Rightarrow> nat option" where
  "digit_val c = (if 48 \<le> c \<and> c \<le> 57 then Some (c - 48) else None)"

fun read_digits :: "nat \<Rightarrow> str \<Rightarrow> nat option" where
  "read_digits acc [] = Some acc"
| "read_digits acc (c # cs) =
     (case digit_val c of None \<Rightarrow> None | Some d \<Rightarrow> read_digits (10 * acc + d) cs)"

definition read_decimal :: "str \<Rightarrow> int option" where
  "read_decimal s =
     (if s = [] \<or> s = py ''-'' then None
      else if hd s = 45 then map_option (\<lambda>n. - int n) (read_digits 0 (tl s))
      else map_option int (read_digits 0 s))"

definition int_numeric :: "int numeric" where
  "int_numeric = \<lparr>parse_num = read_decimal, sum_nums = sum_list\<rparr>"

section \<open>Example tables\<close>

text \<open>
  Tables for the concrete runs below. All but the last are fixed points of \<open>clean\<close>; the
  last has padded cells, a repeated row, an empty row and an empty column.
\<close>

definition exemplo_chave_vazia :: "int table" where
  "exemplo_chave_vazia =
     \<lparr>columns = map py [''Unit'', ''Portfolio'', ''Person''],
      rows = [[Str (py ''A''), Str (py ''X''), Str (py ''p1'')],
              [Empty, Str (py ''X''), Str (py ''p2'')]]\<rparr>"

definition exemplo_texto :: "int table" where
  "exemplo_texto =
     \<lparr>columns = map py [''Carteira'', ''Valor''],
      rows = [[Str (py ''X''), Str (py ''abc'')], [Str (py ''X''), Str (py ''5'')]]\<rparr>"

definition exemplo_coluna_texto :: "int table" where
  "exemplo_coluna_texto =
     \<lparr>columns = map py [''Unidade'', ''Carteira'', ''Pessoa'', ''Valor''],
      rows = [[Str (py ''U''), Str (py ''X''), Str (py ''p1''), Str (py ''abc'')]]\<rparr>"

definition exemplo_unidades :: "int table" where
  "exemplo_unidades =
     \<lparr>columns = map py [''Unit'', ''Portfolio'', ''Person''],
      rows = [[Str (py ''A''), Str (py ''X''), Str (py ''p1'')],
              [Str (py ''A''), Str (py ''X''), Str (py ''p2'')],
              [Str (py ''B''), Str (py ''Y''), Str (py ''p3'')]]\<rparr>"

definition exemplo_sujo :: "int table" where
  "exemplo_sujo =
     \<lparr>columns = map py [''Unit'', ''Vazia'', ''Person''],
      rows = [[Str (py '' A ''), Empty, Str (py ''p1'')],
              [Str (py ''A''), Empty, Str (py ''p1 '')],
              [Empty, Empty, Empty],
              [Str (py ''B''), Empty, Empty]]\<rparr>"

section \<open>Properties of the column-name normaliser\<close>

text \<open>
  The loop invariant of \<open>make_unique\<close>: \<open>seen\<close> holds, for each name met so far, the number
  of its occurrences minus one. Under it the loop computes what the specification words.
\<close>

lemma make_unique_loop_suffix:
  "(\<And>c. seen c = (if count_list earlier c = 0 then None
                    else Some (int (count_list earlier c) - 1)))
   \<Longrightarrow> make_unique_loop seen result cols = result @ suffix_duplicates earlier cols"
proof (induction cols arbitrary: seen result earlier)
  case Nil
  then show ?case by simp
next
  case (Cons col cols)
  show ?case
  proof (cases "count_list earlier col = 0")
    case True
    then have s: "seen col = None" using Cons.prems by simp
    have inv: "\<And>c. (seen(col \<mapsto> 0)) c = (if count_list (earlier @ [col]) c = 0 then None
                    else Some (int (count_list (earlier @ [col]) c) - 1))"
      using Cons.prems True by simp
    have "make_unique_loop (seen(col \<mapsto> 0)) (result @ [col]) cols =
            (result @ [col]) @ suffix_duplicates (earlier @ [col]) cols"
      by (rule Cons.IH [OF inv])
    then show ?thesis
      by (simp add: s True)
  next
    case False
    then have s: "seen col = Some (int (count_list earlier col) - 1)"
      using Cons.prems by simp
    have inv: "\<And>c. (seen(col \<mapsto> int (count_list earlier col) - 1 + 1)) c =
                 (if count_list (earlier @ [col]) c = 0 then None
                    else Some (int (count_list (earlier @ [col]) c) - 1))"
      using Cons.prems False by simp
    have "make_unique_loop (seen(col \<mapsto> int (count_list earlier col) - 1 + 1))
            (result @ [col @ py ''_'' @ str_int (int (count_list earlier col) - 1 + 1)]) cols =
            (result @ [col @ py ''_'' @ str_int (int (count_list earlier col) - 1 + 1)])
              @ suffix_duplicates (earlier @ [col]) cols"
      by (rule Cons.IH [OF inv])
    then show ?thesis
      by (simp add: s False)
  qed
qed

lemma make_unique_suffix: "make_unique cols = suffix_duplicates [] cols"
  unfolding make_unique_def using make_unique_loop_suffix [of Map.empty "[]" "[]" cols] by simp

text \<open>Same length, and the entry at each position extends the input name at that position.\<close>

lemma length_suffix_duplicates: "length (suffix_duplicates earlier names) = length names"
  by (induction names arbitrary: earlier) (simp_all add: Let_def)

lemma length_make_unique: "length (make_unique cols) = length cols"
  by (simp add: make_unique_suffix length_suffix_duplicates)

lemma suffix_duplicates_prefix:
  "list_all2 (\<lambda>name out. prefix name out) names (suffix_duplicates earlier names)"
  by (induction names arbitrary: earlier) (simp_all add: Let_def)

lemma make_unique_prefix: "list_all2 (\<lambda>name out. prefix name out) cols (make_unique cols)"
  by (simp add: make_unique_suffix suffix_duplicates_prefix)

text \<open>Names that are already distinct are returned as they are.\<close>

lemma suffix_duplicates_fresh:
  "distinct names \<Longrightarrow> set names \<inter> set earlier = {} \<Longrightarrow> suffix_duplicates earlier names = names"
proof (induction names arbitrary: earlier)
  case Nil
  then show ?case by simp
next
  case (Cons name names)
  have "count_list earlier name = 0" using Cons.prems by (simp add: count_list_0_iff)
  moreover have "suffix_duplicates (earlier @ [name]) names = names"
    using Cons.prems by (intro Cons.IH) auto
  ultimately show ?case by simp
qed

lemma make_unique_distinct: "distinct cols \<Longrightarrow> make_unique cols = cols"
  by (simp add: make_unique_suffix suffix_duplicates_fresh)

subsection \<open>Trimming\<close>

text \<open>What is left of a string after its leading white space, and what \<open>strip\<close> cuts off it.\<close>

lemma strip_split:
  "dropWhile (isspace db) s
     = strip db s @ rev (takeWhile (isspace db) (rev (dropWhile (isspace db) s)))"
proof -
  let ?u = "dropWhile (isspace db) s"
  have "rev (dropWhile (isspace db) (rev ?u)) @ rev (takeWhile (isspace db) (rev ?u))
        = rev (takeWhile (isspace db) (rev ?u) @ dropWhile (isspace db) (rev ?u))"
    by (simp only: rev_append)
  also have "\<dots> = ?u" by (simp only: takeWhile_dropWhile_id rev_rev_ident)
  finally show ?thesis by (simp only: strip_def)
qed

lemma strip_decompose:
  "s = takeWhile (isspace db) s @ strip db s
         @ rev (takeWhile (isspace db) (rev (dropWhile (isspace db) s)))"
proof -
  have "s = takeWhile (isspace db) s @ dropWhile (isspace db) s" by simp
  then show ?thesis using strip_split [of db s] by simp
qed

lemma strip_ends:
  assumes "strip db s \<noteq> []"
  shows "\<not> isspace db (hd (strip db s))" and "\<not> isspace db (last (strip db s))"
proof -
  let ?u = "dropWhile (isspace db) s"
  let ?w = "dropWhile (isspace db) (rev ?u)"
  have v: "strip db s = rev ?w" by (simp add: strip_def)
  have w: "?w \<noteq> []" using assms v by simp
  have "hd (strip db s) = hd ?u"
    using strip_split [of db s] assms by (metis hd_append2)
  moreover have "?u \<noteq> []" using w by (cases "?u = []") simp_all
  then have "\<not> isspace db (hd ?u)" by (rule hd_dropWhile)
  ultimately show "\<not> isspace db (hd (strip db s))" by simp
  have "last (strip db s) = hd ?w" using w by (simp add: v last_rev)
  moreover have "\<not> isspace db (hd ?w)" using w by (rule hd_dropWhile)
  ultimately show "\<not> isspace db (last (strip db s))" by simp
qed

lemma strip_trim_spec: "strip db s = trim_spec db s"
proof -
  let ?P = "isspace db"
  let ?u = "dropWhile ?P s"
  have u: "?u = drop (length (takeWhile ?P s)) s" by (rule dropWhile_eq_drop)
  have lu: "length ?u = length s - length (takeWhile ?P s)" by (subst u) simp
  have strip: "strip db s = take (length ?u - length (takeWhile ?P (rev ?u))) ?u"
  proof -
    have "dropWhile ?P (rev ?u) = drop (length (takeWhile ?P (rev ?u))) (rev ?u)"
      by (rule dropWhile_eq_drop)
    then have "strip db s = rev (drop (length (takeWhile ?P (rev ?u))) (rev ?u))"
      by (simp add: strip_def)
    then show ?thesis by (simp add: rev_drop)
  qed
  have t: "trim_spec db s
           = take (length s - length (takeWhile ?P s) - length (takeWhile ?P (rev s))) ?u"
    by (simp add: trim_spec_def Let_def u [symmetric])
  show ?thesis
  proof (cases "?u = []")
    case True
    show ?thesis unfolding strip t True by simp
  next
    case False
    then have "\<not> ?P (hd ?u)" by (rule hd_dropWhile)
    moreover have "hd ?u \<in> set (rev ?u)" using False by simp
    moreover have "rev s = rev ?u @ rev (takeWhile ?P s)"
      by (metis rev_append takeWhile_dropWhile_id)
    ultimately have "takeWhile ?P (rev s) = takeWhile ?P (rev ?u)"
      by (metis takeWhile_append1)
    then show ?thesis by (simp only: strip t lu)
  qed
qed

subsection \<open>Title case\<close>

lemma title_loop_spec:
  "data = before @ cs \<Longrightarrow> p = (before \<noteq> [] \<and> iscased db (last before)) \<Longrightarrow>
   title_loop db data (length before) p cs
     = concat (map (\<lambda>i. if 0 < i \<and> iscased db (data ! (i - 1)) then lower_ucs4 db data i (data ! i)
                         else totitle db (data ! i)) [length before..<length data])"
proof (induction cs arbitrary: before p)
  case Nil
  then show ?case by simp
next
  case (Cons c cs)
  have data: "data = (before @ [c]) @ cs" using Cons.prems(1) by simp
  have c: "data ! length before = c" using Cons.prems(1) by simp
  have p: "p = (0 < length before \<and> iscased db (data ! (length before - 1)))"
    using Cons.prems by (cases before rule: rev_cases) (simp_all add: nth_append)
  have "title_loop db data (length (before @ [c])) (iscased db c) cs
        = concat (map (\<lambda>i. if 0 < i \<and> iscased db (data ! (i - 1))
                            then lower_ucs4 db data i (data ! i)
                            else totitle db (data ! i)) [length (before @ [c])..<length data])"
    by (rule Cons.IH [OF data]) simp
  moreover have "length before < length data" using Cons.prems(1) by simp
  then have "[length before..<length data] = length before # [Suc (length before)..<length data]"
    by (rule upt_conv_Cons)
  ultimately show ?case using c p by simp
qed

lemma title_title_spec: "title db s = title_spec db s"
  using title_loop_spec [of s "[]" s False db] by (simp add: title_def title_spec_def)

subsection \<open>On ASCII text every database that agrees with Unicode gives the same names\<close>

lemma strip_ascii:
  assumes "agrees_on_ascii db" and "is_ascii s"
  shows "strip db s = strip ascii_db s"
proof -
  have eq: "\<And>xs. is_ascii xs \<Longrightarrow> dropWhile (isspace db) xs = dropWhile (isspace ascii_db) xs"
    using assms(1) by (intro dropWhile_cong) (auto simp: agrees_on_ascii_def is_ascii_def list_all_iff)
  have 1: "dropWhile (isspace db) s = dropWhile (isspace ascii_db) s"
    by (rule eq [OF assms(2)])
  have "is_ascii (rev (dropWhile (isspace ascii_db) s))"
    using assms(2) by (auto simp: is_ascii_def list_all_iff dest: set_dropWhileD)
  then show ?thesis by (simp add: strip_def 1 eq)
qed

lemma is_ascii_strip: "is_ascii s \<Longrightarrow> is_ascii (strip db s)"
  by (auto simp: strip_def is_ascii_def list_all_iff dest!: set_dropWhileD)

lemma title_loop_ascii:
  "agrees_on_ascii db \<Longrightarrow> is_ascii cs \<Longrightarrow>
   title_loop db data i p cs = title_loop ascii_db data i p cs"
  by (induction cs arbitrary: i p) (simp_all add: agrees_on_ascii_def is_ascii_def)

lemma normalize_names_ascii:
  assumes "agrees_on_ascii db" and "list_all is_ascii raw"
  shows "normalize_names db raw = normalize_names ascii_db raw"
  unfolding normalize_names_def
proof (rule map_cong [OF refl])
  fix col assume "col \<in> set raw"
  then have a: "is_ascii col" using assms(2) by (simp add: list_all_iff)
  have "title db (strip db col) = title db (strip ascii_db col)"
    by (simp add: strip_ascii [OF assms(1) a])
  also have "\<dots> = title ascii_db (strip ascii_db col)"
    unfolding title_def by (rule title_loop_ascii [OF assms(1) is_ascii_strip [OF a]])
  finally show "title db (strip db col) = title ascii_db (strip ascii_db col)" .
qed

lemma agrees_ascii_db: "agrees_on_ascii ascii_db"
  by (simp add: agrees_on_ascii_def)

subsection \<open>The suffix is the decimal numeral of the counter\<close>

lemma read_digits_append:
  "read_digits acc (xs @ ys)
     = (case read_digits acc xs of None \<Rightarrow> None | Some a \<Rightarrow> read_digits a ys)"
  by (induction xs arbitrary: acc) (simp_all split: option.splits)

lemma read_digits_digits: "read_digits 0 (digits n) = Some n"
proof (induction n rule: digits.induct)
  case (1 n)
  show ?case
  proof (cases "n < 10")
    case True
    then show ?thesis by (subst digits.simps) (simp add: digit_val_def)
  next
    case False
    have "n mod 10 < 10" by simp
    then have "digit_val (48 + n mod 10) = Some (n mod 10)"
      by (simp add: digit_val_def)
    then show ?thesis
      using 1 False by (subst digits.simps) (simp add: read_digits_append)
  qed
qed

lemma digits_are_digits: "c \<in> set (digits n) \<Longrightarrow> 48 \<le> c \<and> c \<le> 57"
proof (induction n rule: digits.induct)
  case (1 n)
  have "n mod 10 < 10" by simp
  then have "48 + n mod 10 \<le> 57" by linarith
  with 1 show ?case
    by (subst (asm) (2) digits.simps) (auto split: if_splits)
qed

lemma digits_not_Nil: "digits n \<noteq> []"
  by (subst digits.simps) simp

lemma read_decimal_str_int: "read_decimal (str_int i) = Some i"
proof (cases "i < 0")
  case True
  then show ?thesis
    by (simp add: read_decimal_def str_int_def py_def digits_not_Nil read_digits_digits)
next
  case False
  have "hd (digits (nat i)) \<in> set (digits (nat i))" by (simp add: digits_not_Nil)
  then have "hd (digits (nat i)) \<noteq> 45" using digits_are_digits by fastforce
  moreover have "digits (nat i) \<noteq> py ''-''"
    using calculation by (auto simp: py_def)
  ultimately show ?thesis using False
    by (simp add: read_decimal_def str_int_def digits_not_Nil read_digits_digits)
qed

subsection \<open>The claims about the normaliser\<close>

lemma normalize_columns_spec: "normalize_columns db raw = normalizer_spec db raw"
  by (simp add: normalize_columns_def normalizer_spec_def normalize_names_def make_unique_suffix
      strip_trim_spec title_title_spec)

lemma normalize_columns_ascii:
  "agrees_on_ascii db \<Longrightarrow> list_all is_ascii raw \<Longrightarrow>
   normalize_columns db raw = normalize_columns ascii_db raw"
  by (simp add: normalize_columns_def normalize_names_ascii)

text \<open>
  Claim C7. Each raw name is trimmed and title-cased; a normalised name that was already
  seen \<open>k\<close> times gets the suffix \<open>_k\<close> (the first duplicate \<open>_1\<close>, the second \<open>_2\<close>, ...),
  and the first occurrence of a name stays bare: the normaliser of lines 53 to 67 computes
  the function that says so, for every list of raw names and every Unicode database.
  Trimming cuts white space only, off both ends, and leaves none at either end; the
  suffix reads back, in decimal, as the counter. With a database that agrees with Unicode
  on ASCII the raw columns \<open>["Name", "name", "Name"]\<close> become
  \<open>["Name", "Name_1", "Name_2"]\<close>, and padded names in capitals or small letters become
  the same title-cased name, suffixed from the second on.
\<close>

theorem normalizer_refines_spec:
  "normalize_columns db raw = normalizer_spec db raw
   \<and> (\<exists>before after. s = before @ strip db s @ after
          \<and> list_all (isspace db) before \<and> list_all (isspace db) after)
   \<and> (strip db s \<noteq> [] \<longrightarrow>
          \<not> isspace db (hd (strip db s)) \<and> \<not> isspace db (last (strip db s)))
   \<and> title db s = title_spec db s
   \<and> read_decimal (str_int k) = Some k
   \<and> (agrees_on_ascii db \<longrightarrow>
          normalize_columns db (map py [''Name'', ''name'', ''Name''])
            = map py [''Name'', ''Name_1'', ''Name_2'']
        \<and> normalize_columns db (map py [''  total vendas '', ''TOTAL VENDAS'', ''Total Vendas''])
            = map py [''Total Vendas'', ''Total Vendas_1'', ''Total Vendas_2''])"
proof (intro conjI impI)
  show "normalize_columns db raw = normalizer_spec db raw"
    by (rule normalize_columns_spec)
  have "list_all (isspace db) (takeWhile (isspace db) s)"
    by (auto simp: list_all_iff dest: set_takeWhileD)
  moreover have
    "list_all (isspace db) (rev (takeWhile (isspace db) (rev (dropWhile (isspace db) s))))"
    by (auto simp: list_all_iff dest: set_takeWhileD)
  ultimately show "\<exists>before after. s = before @ strip db s @ after
          \<and> list_all (isspace db) before \<and> list_all (isspace db) after"
    using strip_decompose [of s db] by blast
  show "\<not> isspace db (hd (strip db s))" if "strip db s \<noteq> []"
    using that by (rule strip_ends)
  show "\<not> isspace db (last (strip db s))" if "strip db s \<noteq> []"
    using that by (rule strip_ends)
  show "title db s = title_spec db s" by (rule title_title_spec)
  show "read_decimal (str_int k) = Some k" by (rule read_decimal_str_int)
next
  assume a: "agrees_on_ascii db"
  have 1: "list_all is_ascii (map py [''Name'', ''name'', ''Name''])" by code_simp
  have "normalize_columns ascii_db (map py [''Name'', ''name'', ''Name''])
          = map py [''Name'', ''Name_1'', ''Name_2'']" by code_simp
  then show "normalize_columns db (map py [''Name'', ''name'', ''Name''])
          = map py [''Name'', ''Name_1'', ''Name_2'']"
    by (simp only: normalize_columns_ascii [OF a 1])
next
  assume a: "agrees_on_ascii db"
  have 1: "list_all is_ascii (map py [''  total vendas '', ''TOTAL VENDAS'', ''Total Vendas''])"
    by code_simp
  have "normalize_columns ascii_db (map py [''  total vendas '', ''TOTAL VENDAS'', ''Total Vendas''])
          = map py [''Total Vendas'', ''Total Vendas_1'', ''Total Vendas_2'']" by code_simp
  then show "normalize_columns db (map py [''  total vendas '', ''TOTAL VENDAS'', ''Total Vendas''])
          = map py [''Total Vendas'', ''Total Vendas_1'', ''Total Vendas_2'']"
    by (simp only: normalize_columns_ascii [OF a 1])
qed

theorem normalizer_refines_spec_witness:
  "agrees_on_ascii ascii_db
   \<and> strip ascii_db (py '' name '') \<noteq> []
   \<and> normalize_columns ascii_db (map py [''Name'', ''name'', ''Name''])
       = map py [''Name'', ''Name_1'', ''Name_2'']
   \<and> normalize_columns ascii_db (map py [''  total vendas '', ''TOTAL VENDAS'', ''Total Vendas''])
       = map py [''Total Vendas'', ''Total Vendas_1'', ''Total Vendas_2'']
   \<and> \<not> isspace ascii_db (hd (strip ascii_db (py '' name '')))
   \<and> \<not> isspace ascii_db (last (strip ascii_db (py '' name '')))"
proof -
  have a: "agrees_on_ascii ascii_db" by (rule agrees_ascii_db)
  have n: "strip ascii_db (py '' name '') \<noteq> []" by code_simp
  from normalizer_refines_spec [of ascii_db "[]" "py '' name ''" 0] a n
  show ?thesis by blast
qed

text \<open>
  Claim C1. The claim is that the names returned are pairwise distinct. The code misses the
  case of a suffixed name that equals a name of the input: the headers \<open>a\<close>, \<open>A\<close>, \<open>A_1\<close>
  are normalised to \<open>A\<close>, \<open>A\<close>, \<open>A_1\<close>, the second \<open>A\<close> becomes \<open>A_1\<close>, and the third name,
  not seen before, stays \<open>A_1\<close>.
\<close>

theorem make_unique_collision:
  "normalize_columns ascii_db (map py [''a'', ''A'', ''A_1'']) = map py [''A'', ''A_1'', ''A_1'']
   \<and> \<not> distinct (normalize_columns ascii_db (map py [''a'', ''A'', ''A_1'']))"
  by code_simp

text \<open>The same with every database that agrees with Unicode on ASCII.\<close>

lemma normalize_columns_collision:
  assumes "agrees_on_ascii db"
  shows "\<not> distinct (normalize_columns db (map py [''a'', ''A'', ''A_1'']))"
proof -
  have 1: "list_all is_ascii (map py [''a'', ''A'', ''A_1''])" by code_simp
  have "\<not> distinct (normalize_columns ascii_db (map py [''a'', ''A'', ''A_1'']))" by code_simp
  then show ?thesis by (simp only: normalize_columns_ascii [OF assms 1] not_False_eq_True)
qed

text \<open>
  Claim C6. The claim is that a second application returns the result of the first
  unchanged. On the names \<open>A\<close>, \<open>A\<close>, \<open>A_1\<close> the first application returns \<open>A_1\<close> twice, and
  the second application re-suffixes the second of them to \<open>A_1_1\<close>.
\<close>

theorem make_unique_twice_resuffixes:
  "make_unique (map py [''A'', ''A'', ''A_1'']) = map py [''A'', ''A_1'', ''A_1'']
   \<and> make_unique (make_unique (map py [''A'', ''A'', ''A_1''])) = map py [''A'', ''A_1'', ''A_1_1'']
   \<and> make_unique (make_unique (map py [''A'', ''A'', ''A_1'']))
       \<noteq> make_unique (map py [''A'', ''A'', ''A_1''])"
  by code_simp

section \<open>The bound of the header-row input\<close>

lemma linha_cabecalho_empty_sheet: "linha_cabecalho 0 entered = Inl StreamlitAPIException"
  by (simp add: linha_cabecalho_def number_input_def)

lemma linha_cabecalho_returns: "0 < n \<Longrightarrow> \<exists>v. linha_cabecalho n entered = Inr v"
  by (auto simp: linha_cabecalho_def number_input_def min_def)

text \<open>
  Claim C9. Whatever number the user enters, the header-row index that the widget returns is
  at least 0 and at most the smaller of 50 and \<open>len(base_dados) - 1\<close>.
\<close>

theorem linha_cabecalho_bounded:
  "linha_cabecalho n entered = Inr v \<Longrightarrow> 0 \<le> v \<and> v \<le> min 50 (int n - 1)"
  by (auto simp: linha_cabecalho_def number_input_def split: if_splits)

theorem linha_cabecalho_bounded_witness:
  "linha_cabecalho 10 9 = Inr 9 \<and> (0::int) \<le> 9 \<and> (9::int) \<le> min 50 (int 10 - 1)"
proof -
  have h: "linha_cabecalho 10 9 = Inr 9"
    by (simp add: linha_cabecalho_def number_input_def)
  from linha_cabecalho_bounded [OF h] h show ?thesis by simp
qed

section \<open>Masks and duplicates\<close>

lemma select_Nil [simp]: "select keep [] = []" "select [] xs = []"
  by (simp_all add: select_def)

lemma select_Cons [simp]:
  "select (b # bs) (x # xs) = (if b then x # select bs xs else select bs xs)"
  by (simp add: select_def)

lemma length_duplicated_loop [simp]: "length (duplicated_loop seen xs) = length xs"
  by (induction xs arbitrary: seen) simp_all

lemma set_select_duplicated_loop:
  "set (select (map Not (duplicated_loop seen xs)) xs) = set xs - set seen"
  by (induction xs arbitrary: seen) auto

lemma distinct_select_duplicated_loop:
  "distinct (select (map Not (duplicated_loop seen xs)) xs)"
  by (induction xs arbitrary: seen) (auto simp: set_select_duplicated_loop)

lemma set_drop_dups: "set (select (map Not (duplicated xs)) xs) = set xs"
  by (simp add: duplicated_def set_select_duplicated_loop)

lemma distinct_drop_dups: "distinct (select (map Not (duplicated xs)) xs)"
  by (simp add: duplicated_def distinct_select_duplicated_loop)

section \<open>Properties of the aggregation\<close>

lemma sum_list_indicator:
  "distinct ks \<Longrightarrow> a \<in> set ks \<Longrightarrow> sum_list (map (\<lambda>k. if a = k then (c::nat) else 0) ks) = c"
  by (induction ks) auto

lemma group_counts_total:
  "distinct ks \<Longrightarrow> fst ` set recs \<subseteq> set ks \<Longrightarrow>
   sum_list (map (\<lambda>k. count_notna (map snd (filter (\<lambda>(k', v). k' = k) recs))) ks)
     = count_notna (map snd recs)"
proof (induction recs)
  case Nil
  then show ?case by (simp add: count_notna_def)
next
  case (Cons rec recs)
  obtain a b where rec: "rec = (a, b)" by (cases rec)
  have a: "a \<in> set ks" using Cons.prems rec by auto
  have "sum_list (map (\<lambda>k. count_notna (map snd (filter (\<lambda>(k', v). k' = k) (rec # recs)))) ks)
        = sum_list (map (\<lambda>k. (if a = k then count_notna [b] else 0)
              + count_notna (map snd (filter (\<lambda>(k', v). k' = k) recs))) ks)"
    by (rule arg_cong [where f = sum_list], rule map_cong) (auto simp: rec count_notna_def)
  also have "\<dots> = sum_list (map (\<lambda>k. if a = k then count_notna [b] else 0) ks)
                 + sum_list (map (\<lambda>k. count_notna (map snd (filter (\<lambda>(k', v). k' = k) recs))) ks)"
    by (simp add: sum_list_addf)
  also have "\<dots> = count_notna [b] + count_notna (map snd recs)"
    using Cons.IH Cons.prems a by (simp add: sum_list_indicator)
  finally show ?case by (simp add: rec count_notna_def)
qed

lemma sum_groupby_count:
  "sum_list (map snd (groupby_count keys vs))
     = count_notna (map snd (filter (\<lambda>(k, v). \<not> list_ex is_na k) (zip keys vs)))"
proof -
  define recs where "recs = filter (\<lambda>(k, v). \<not> list_ex is_na k) (zip keys vs)"
  have d: "distinct (group_keys recs)"
    by (simp add: group_keys_def Let_def distinct_drop_dups)
  have s: "fst ` set recs \<subseteq> set (group_keys recs)"
    by (simp add: group_keys_def Let_def set_drop_dups)
  have "map snd (groupby_count keys vs)
        = map (\<lambda>k. count_notna (map snd (filter (\<lambda>(k', v). k' = k) recs))) (group_keys recs)"
    by (simp add: groupby_count_def grouped_def recs_def Let_def comp_def)
  then show ?thesis
    using group_counts_total [OF d s] by (simp add: recs_def)
qed

lemma get_column_index:
  "column_index df label = Inr j \<Longrightarrow> get_column df label = Inr (map (\<lambda>r. r ! j) (rows df))"
  by (simp add: get_column_def)

lemma zip_key_pairs:
  "zip (map (\<lambda>(u, c). [u, c]) (zip (map (\<lambda>r. r ! iu) rs) (map (\<lambda>r. r ! ic) rs)))
       (map (\<lambda>r. r ! ip) rs)
     = map (\<lambda>row. ([row ! iu, row ! ic], row ! ip)) rs"
  by (induction rs) simp_all

text \<open>The example of the specification: two persons for (A, X), one for (B, Y).\<close>

lemma resumo_example:
  "resumo exemplo_unidades (py ''Unit'') (py ''Portfolio'') (py ''Person'')
     = Inr [([Str (py ''A''), Str (py ''X'')], 2), ([Str (py ''B''), Str (py ''Y'')], 1)]
   \<and> resumo_unidade exemplo_unidades (py ''Unit'') (py ''Person'')
     = Inr [([Str (py ''A'')], 2), ([Str (py ''B'')], 1)]"
  by code_simp

text \<open>
  Line 85 with the same column chosen as unit and as portfolio and another as person:
  the \<open>ValueError\<close> of pandas.
\<close>

lemma resumo_same_grouping_column:
  "column_index df col = Inr i \<Longrightarrow> column_index df col_pessoa = Inr ip \<Longrightarrow>
   col_pessoa \<noteq> col \<Longrightarrow> resumo df col col col_pessoa = Inl ValueError"
  by (simp add: resumo_def get_column_index)

lemma resumo_same_grouping_column_example:
  "resumo exemplo_unidades (py ''Unit'') (py ''Unit'') (py ''Person'') = Inl ValueError"
  by code_simp

text \<open>
  Claim C2, as amended. For every table and every choice of the three columns for which
  line 85 does not raise (labels that each name one column; the two grouping columns
  different, or all three the same), the aggregator returns, and the sum of its counts
  per (unit, portfolio) combination is the number of rows in which the target cell and
  both grouping cells are non-empty. Rows with an empty grouping cell are in no group.
\<close>

theorem resumo_counts_sum:
  assumes "column_index df col_unidade = Inr iu"
    and "column_index df col_carteira = Inr ic"
    and "column_index df col_pessoa = Inr ip"
    and "col_unidade \<noteq> col_carteira \<or> col_pessoa = col_unidade"
  shows "\<exists>r. resumo df col_unidade col_carteira col_pessoa = Inr r
           \<and> sum_list (map snd r)
             = length (filter (\<lambda>row. \<not> is_na (row ! iu) \<and> \<not> is_na (row ! ic) \<and> \<not> is_na (row ! ip))
                 (rows df))"
proof -
  let ?keys = "map (\<lambda>(u, c). [u, c]) (zip (map (\<lambda>r. r ! iu) (rows df)) (map (\<lambda>r. r ! ic) (rows df)))"
  let ?ps = "map (\<lambda>r. r ! ip) (rows df)"
  have r: "resumo df col_unidade col_carteira col_pessoa = Inr (groupby_count ?keys ?ps)"
    using assms by (auto simp: resumo_def get_column_index)
  have z: "zip ?keys ?ps = map (\<lambda>row. ([row ! iu, row ! ic], row ! ip)) (rows df)"
    by (rule zip_key_pairs)
  have "sum_list (map snd (groupby_count ?keys ?ps))
        = length (filter (\<lambda>row. \<not> is_na (row ! iu) \<and> \<not> is_na (row ! ic) \<and> \<not> is_na (row ! ip))
                 (rows df))"
    unfolding sum_groupby_count z
    by (simp add: count_notna_def filter_map comp_def conj_commute conj_left_commute)
  with r show ?thesis by simp
qed

theorem resumo_counts_sum_witness:
  "py ''Unit'' \<noteq> py ''Portfolio''
   \<and> (\<exists>r. resumo exemplo_chave_vazia (py ''Unit'') (py ''Portfolio'') (py ''Person'') = Inr r
           \<and> sum_list (map snd r)
             = length (filter (\<lambda>row. \<not> is_na (row ! 0) \<and> \<not> is_na (row ! 1) \<and> \<not> is_na (row ! 2))
                 (rows exemplo_chave_vazia)))"
proof -
  have 0: "column_index exemplo_chave_vazia (py ''Unit'') = Inr 0" by code_simp
  have 1: "column_index exemplo_chave_vazia (py ''Portfolio'') = Inr 1" by code_simp
  have 2: "column_index exemplo_chave_vazia (py ''Person'') = Inr 2" by code_simp
  have 3: "py ''Unit'' \<noteq> py ''Portfolio''" by code_simp
  from 3 have 4: "py ''Unit'' \<noteq> py ''Portfolio'' \<or> py ''Person'' = py ''Unit''" by (rule disjI1)
  from resumo_counts_sum [OF 0 1 2 4] 3 show ?thesis by (rule conjI [rotated])
qed

text \<open>
  Claim C2 as stated fails: in a cleaned table with the rows \<open>(A, X, p1)\<close> and
  \<open>(empty, X, p2)\<close> the counts sum to 1, and the target column has 2 non-empty values.
\<close>

theorem resumo_misses_rows_without_key:
  "clean ascii_db exemplo_chave_vazia = exemplo_chave_vazia
   \<and> resumo exemplo_chave_vazia (py ''Unit'') (py ''Portfolio'') (py ''Person'')
       = Inr [([Str (py ''A''), Str (py ''X'')], 1)]
   \<and> get_column exemplo_chave_vazia (py ''Person'') = Inr [Str (py ''p1''), Str (py ''p2'')]
   \<and> sum_list (map snd [([Str (py ''A''), Str (py ''X'') :: int cell], 1::nat)])
       \<noteq> count_notna [Str (py ''p1''), Str (py ''p2'') :: int cell]"
  by code_simp

section \<open>Properties of the dashboards\<close>

text \<open>
  Claim C3. The claim is that a cell of the value column that does not read as a number
  becomes empty and is left out of the sum of its group. The pie-chart path sums first and
  coerces the sums: with the values \<open>"abc"\<close> and \<open>"5"\<close> in one group its sum is the string
  \<open>"abc5"\<close>, which does not read as a number, the group is dropped and the warning is shown.
  The dashboard per unit (lines 139 and 140) coerces each cell first and sums to 5.
\<close>

theorem pizza_sums_before_coercion:
  "clean ascii_db exemplo_texto = exemplo_texto
   \<and> grafico_pizza int_numeric exemplo_texto (py ''Carteira'') (py ''Valor'')
       = Inr Sem_dados_numericos
   \<and> map_sum id snd (dashboard_unidade int_numeric exemplo_texto (py ''Carteira'') (py ''Valor''))
       = Inr (Bar_unidade [([Str (py ''X'')], Num 5)])"
  by code_simp

text \<open>
  Claim C4 as stated fails: the last dashboard writes to the table. With a string that does
  not read as a number in the chosen column, that cell is empty afterwards.
\<close>

theorem downstream_changes_table:
  "clean ascii_db exemplo_coluna_texto = exemplo_coluna_texto
   \<and> rows exemplo_coluna_texto
       = [[Str (py ''U''), Str (py ''X''), Str (py ''p1''), Str (py ''abc'')]]
   \<and> map_sum id (rows \<circ> fst)
        (downstream int_numeric exemplo_coluna_texto
           (py ''Unidade'') (py ''Carteira'') (py ''Pessoa'') Barras (py ''Valor'') (py ''Valor''))
       = Inr [[Str (py ''U''), Str (py ''X''), Str (py ''p1''), Empty]]"
  by code_simp

lemma set_column_cells:
  "map (\<lambda>(r, v). r[j := v]) (zip rs (map g rs)) = map (\<lambda>r. r[j := g r]) rs"
  by (induction rs) simp_all

lemma coerce_column_rows:
  "coerce_column np df label = Inr df' \<Longrightarrow>
   \<exists>j. column_index df label = Inr j \<and> columns df' = columns df
      \<and> rows df' = map (\<lambda>r. r[j := to_numeric np (r ! j)]) (rows df)"
  by (auto simp: coerce_column_def get_column_def set_column_def set_column_cells
      split: sum.splits)

text \<open>
  Claim C4, as amended. When the steps after cleaning run through, both aggregations, the
  inconsistency check and the first dashboard were computed from the cleaned table as it
  was; the table left at the end has the same columns and rows, the cells of the column
  chosen for the dashboard per unit replaced by their numeric coercion and every cell of
  every other column unchanged.
\<close>

theorem downstream_frame:
  assumes "downstream np df col_unidade col_carteira col_pessoa tipo_grafico col_valor
             col_valor_unidade = Inr (df', out)"
  shows "resumo df col_unidade col_carteira col_pessoa = Inr (out_resumo out)
       \<and> resumo_unidade df col_unidade col_pessoa = Inr (out_resumo_unidade out)
       \<and> inconsistencias df = out_inconsistencias out
       \<and> dashboard_carteiras np df tipo_grafico col_carteira col_valor col_unidade
           = Inr (out_dashboard out)
       \<and> (\<exists>j. column_index df col_valor_unidade = Inr j
            \<and> columns df' = columns df
            \<and> rows df' = map (\<lambda>r. r[j := to_numeric np (r ! j)]) (rows df)
            \<and> (\<forall>i k. i < length (rows df) \<longrightarrow> k \<noteq> j \<longrightarrow> rows df' ! i ! k = rows df ! i ! k))"
proof -
  from assms obtain r ru fig figu where
    r: "resumo df col_unidade col_carteira col_pessoa = Inr r"
    and ru: "resumo_unidade df col_unidade col_pessoa = Inr ru"
    and fig: "dashboard_carteiras np df tipo_grafico col_carteira col_valor col_unidade = Inr fig"
    and du: "dashboard_unidade np df col_unidade col_valor_unidade = Inr (df', figu)"
    and out: "out = \<lparr>out_resumo = r, out_resumo_unidade = ru,
                     out_inconsistencias = inconsistencias df,
                     out_dashboard = fig, out_valor_unidade = figu\<rparr>"
    by (auto simp: downstream_def split: sum.splits prod.splits)
  from du have "coerce_column np df col_valor_unidade = Inr df'"
    by (auto simp: dashboard_unidade_def split: sum.splits)
  then obtain j where j: "column_index df col_valor_unidade = Inr j"
    "columns df' = columns df"
    "rows df' = map (\<lambda>r. r[j := to_numeric np (r ! j)]) (rows df)"
    using coerce_column_rows by blast
  have "\<forall>i k. i < length (rows df) \<longrightarrow> k \<noteq> j \<longrightarrow> rows df' ! i ! k = rows df ! i ! k"
    by (simp add: j(3))
  with r ru fig out j show ?thesis by simp
qed

theorem downstream_frame_witness:
  "resumo exemplo_coluna_texto (py ''Unidade'') (py ''Carteira'') (py ''Pessoa'')
     = Inr [([Str (py ''U''), Str (py ''X'')], 1)]
   \<and> (\<exists>j. column_index exemplo_coluna_texto (py ''Valor'') = Inr j
        \<and> (\<forall>i k. i < length (rows exemplo_coluna_texto) \<longrightarrow> k \<noteq> j \<longrightarrow>
              [[Str (py ''U''), Str (py ''X''), Str (py ''p1''), Empty]] ! i ! k
                = rows exemplo_coluna_texto ! i ! k))"
proof -
  have h: "downstream int_numeric exemplo_coluna_texto
             (py ''Unidade'') (py ''Carteira'') (py ''Pessoa'') Barras (py ''Valor'') (py ''Valor'')
           = Inr (\<lparr>columns = map py [''Unidade'', ''Carteira'', ''Pessoa'', ''Valor''],
                   rows = [[Str (py ''U''), Str (py ''X''), Str (py ''p1''), Empty]]\<rparr>,
                  \<lparr>out_resumo = [([Str (py ''U''), Str (py ''X'')], 1)],
                   out_resumo_unidade = [([Str (py ''U'')], 1)],
                   out_inconsistencias = [],
                   out_dashboard = Bar [(Str (py ''X''), Str (py ''abc''), Str (py ''U''))],
                   out_valor_unidade = Bar_unidade [([Str (py ''U'')], Num 0)]\<rparr>)"
    by code_simp
  from downstream_frame [OF h] show ?thesis by auto
qed

section \<open>Properties of stripping and of the column mask\<close>

lemma strip_idem: "strip db (strip db s) = strip db s"
proof -
  define u where "u = dropWhile (isspace db) s"
  define w where "w = dropWhile (isspace db) (rev u)"
  have v: "strip db s = rev w" by (simp add: strip_def u_def w_def)
  have "rev u = takeWhile (isspace db) (rev u) @ w" by (simp add: w_def)
  then have "rev (rev u) = rev (takeWhile (isspace db) (rev u) @ w)" by (rule arg_cong)
  then have u: "u = rev w @ rev (takeWhile (isspace db) (rev u))" by simp
  have "dropWhile (isspace db) (rev w) = rev w"
  proof (cases "w = []")
    case True
    then show ?thesis by simp
  next
    case False
    then have "hd (rev w) = hd u" using u by (metis hd_append2 rev_is_Nil_conv)
    moreover have "u \<noteq> []" using u False by auto
    then have "\<not> isspace db (hd u)" unfolding u_def by (rule hd_dropWhile)
    ultimately show ?thesis by (simp add: dropWhile_eq_self_iff)
  qed
  moreover have "dropWhile (isspace db) w = w" by (simp add: w_def)
  ultimately show ?thesis by (simp add: v) (simp add: strip_def)
qed

lemma strip_cell_idem: "strip_cell db (strip_cell db c) = strip_cell db c"
  by (cases c) (simp_all add: strip_idem)

lemma is_na_strip_cell [simp]: "is_na (strip_cell db c) = is_na c"
  by (cases c) simp_all

lemma is_na_iff: "is_na c \<longleftrightarrow> c = Empty"
  by (cases c) simp_all

lemma length_notna_mask [simp]: "length (notna_mask n rs) = n"
  by (simp add: notna_mask_def)

lemma notna_mask_Suc:
  assumes "\<forall>r\<in>set rs. length r = Suc n"
  shows "notna_mask (Suc n) rs = list_ex (\<lambda>r. \<not> is_na (hd r)) rs # notna_mask n (map tl rs)"
proof -
  have hd0: "\<And>r. r \<in> set rs \<Longrightarrow> r ! 0 = hd r"
    using assms by (metis hd_conv_nth length_0_conv nat.distinct(1))
  have tlj: "\<And>r j. r \<in> set rs \<Longrightarrow> j < n \<Longrightarrow> r ! Suc j = tl r ! j"
    using assms by (simp add: nth_tl)
  have "notna_mask (Suc n) rs
        = list_ex (\<lambda>r. \<not> is_na (r ! 0)) rs
          # map (\<lambda>j. list_ex (\<lambda>r. \<not> is_na (r ! Suc j)) rs) [0..<n]"
    unfolding notna_mask_def by (simp add: upt_conv_Cons map_Suc_upt [symmetric] comp_def del: upt_Suc)
  also have "list_ex (\<lambda>r. \<not> is_na (r ! 0)) rs = list_ex (\<lambda>r. \<not> is_na (hd r)) rs"
    using hd0 by (auto simp: list_ex_iff)
  also have "map (\<lambda>j. list_ex (\<lambda>r. \<not> is_na (r ! Suc j)) rs) [0..<n] = notna_mask n (map tl rs)"
    unfolding notna_mask_def using tlj by (auto simp: list_ex_iff)
  finally show ?thesis .
qed

text \<open>What the mask of the columns says about a row of the table.\<close>

lemma masked_cells_empty:
  "\<forall>r\<in>set rs. length r = n \<Longrightarrow> r \<in> set rs \<Longrightarrow>
   \<forall>(b, c)\<in>set (zip (notna_mask n rs) r). \<not> b \<longrightarrow> c = Empty"
proof (induction n arbitrary: rs r)
  case 0
  then show ?case by (simp add: notna_mask_def)
next
  case (Suc n)
  have "length r = Suc n" using Suc.prems by blast
  then obtain c cs where r: "r = c # cs" by (cases r) auto
  have tl: "\<forall>r'\<in>set (map tl rs). length r' = n" using Suc.prems(1) by auto
  have cs: "cs \<in> set (map tl rs)" using Suc.prems(2) r by force
  have c: "\<not> list_ex (\<lambda>r. \<not> is_na (hd r)) rs \<Longrightarrow> c = Empty"
    using Suc.prems(2) r by (auto simp: list_ex_iff is_na_iff)
  show ?case
    using Suc.IH [OF tl cs] c by (simp add: notna_mask_Suc [OF Suc.prems(1)] r)
qed

lemma select_inj:
  "length r1 = length keep \<Longrightarrow> length r2 = length keep \<Longrightarrow>
   \<forall>(b, c)\<in>set (zip keep r1). \<not> b \<longrightarrow> c = Empty \<Longrightarrow>
   \<forall>(b, c)\<in>set (zip keep r2). \<not> b \<longrightarrow> c = Empty \<Longrightarrow>
   select keep r1 = select keep r2 \<Longrightarrow> r1 = r2"
proof (induction keep arbitrary: r1 r2)
  case Nil
  then show ?case by simp
next
  case (Cons b keep)
  from Cons.prems obtain c1 cs1 c2 cs2 where r: "r1 = c1 # cs1" "r2 = c2 # cs2"
    by (cases r1; cases r2) auto
  show ?case
    using Cons.prems Cons.IH [of cs1 cs2] unfolding r by (cases b) auto
qed

lemma select_notna:
  "length r = length keep \<Longrightarrow> \<forall>(b, c)\<in>set (zip keep r). \<not> b \<longrightarrow> c = Empty \<Longrightarrow>
   list_all is_na (select keep r) \<Longrightarrow> list_all is_na r"
proof (induction keep arbitrary: r)
  case Nil
  then show ?case by simp
next
  case (Cons b keep)
  from Cons.prems obtain c cs where r: "r = c # cs" by (cases r) auto
  show ?case
    using Cons.prems Cons.IH [of cs] unfolding r by (cases b) auto
qed

lemma subseq_select: "subseq (select keep xs) xs"
proof (induction keep arbitrary: xs)
  case Nil
  then show ?case by simp
next
  case (Cons b keep)
  then show ?case by (cases xs) auto
qed

lemma set_select_subset: "set (select keep xs) \<subseteq> set xs"
  by (auto simp: select_def dest: set_zip_rightD)

lemma select_all: "length xs = n \<Longrightarrow> select (replicate n True) xs = xs"
  by (induction xs arbitrary: n) auto

lemma length_select_mask:
  "length xs = length keep \<Longrightarrow> length ys = length keep \<Longrightarrow>
   length (select keep xs) = length (select keep ys)"
proof (induction keep arbitrary: xs ys)
  case Nil
  then show ?case by simp
next
  case (Cons b keep)
  then show ?case by (cases xs; cases ys) auto
qed

text \<open>After the empty columns are dropped, every column has a value.\<close>

lemma notna_mask_select:
  "\<forall>r\<in>set rs. length r = n \<Longrightarrow> length cols = n \<Longrightarrow>
   notna_mask (length (select (notna_mask n rs) cols)) (map (select (notna_mask n rs)) rs)
     = replicate (length (select (notna_mask n rs) cols)) True"
proof (induction n arbitrary: rs cols)
  case 0
  then show ?case by (simp add: notna_mask_def)
next
  case (Suc n)
  from Suc.prems obtain x xs where cols: "cols = x # xs" "length xs = n" by (cases cols) auto
  let ?b = "list_ex (\<lambda>r. \<not> is_na (hd r)) rs"
  let ?m = "notna_mask n (map tl rs)"
  have m: "notna_mask (Suc n) rs = ?b # ?m" by (rule notna_mask_Suc [OF Suc.prems(1)])
  have tl: "\<forall>r\<in>set (map tl rs). length r = n" using Suc.prems(1) by auto
  note IH = Suc.IH [OF tl cols(2)]
  have sel: "\<And>r. r \<in> set rs \<Longrightarrow>
      select (?b # ?m) r = (if ?b then hd r # select ?m (tl r) else select ?m (tl r))"
  proof -
    fix r assume "r \<in> set rs"
    then have "length r = Suc n" using Suc.prems(1) by blast
    then obtain c cs where "r = c # cs" by (cases r) auto
    then show "select (?b # ?m) r = (if ?b then hd r # select ?m (tl r) else select ?m (tl r))"
      by simp
  qed
  show ?case
  proof (cases ?b)
    case False
    have rows: "map (select (notna_mask (Suc n) rs)) rs = map (select ?m) (map tl rs)"
      unfolding m using sel False by simp
    have c: "select (notna_mask (Suc n) rs) cols = select ?m xs"
      unfolding m using False by (simp add: cols)
    show ?thesis unfolding rows c by (rule IH)
  next
    case True
    let ?k = "length (select ?m xs)"
    let ?rs' = "map (\<lambda>r. hd r # select ?m (tl r)) rs"
    have rows: "map (select (notna_mask (Suc n) rs)) rs = ?rs'"
      unfolding m using sel True by simp
    have c: "select (notna_mask (Suc n) rs) cols = x # select ?m xs"
      unfolding m using True by (simp add: cols)
    have len: "\<forall>r\<in>set ?rs'. length r = Suc ?k"
    proof
      fix r' assume "r' \<in> set ?rs'"
      then obtain r where r: "r \<in> set rs" "r' = hd r # select ?m (tl r)" by auto
      have "length (tl r) = n" using r(1) Suc.prems(1) by simp
      then have "length (select ?m (tl r)) = ?k"
        using cols(2) by (intro length_select_mask) simp_all
      then show "length r' = Suc ?k" by (simp add: r(2))
    qed
    have "notna_mask (Suc ?k) ?rs'
          = list_ex (\<lambda>r. \<not> is_na (hd r)) ?rs' # notna_mask ?k (map tl ?rs')"
      by (rule notna_mask_Suc [OF len])
    also have "list_ex (\<lambda>r. \<not> is_na (hd r)) ?rs' = True"
      using True by (simp add: list_ex_iff)
    also have "map tl ?rs' = map (select ?m) (map tl rs)"
      by simp
    also note IH
    finally have "notna_mask (Suc ?k) ?rs' = replicate (Suc ?k) True" by simp
    then show ?thesis unfolding rows c by simp
  qed
qed

section \<open>Properties of cleaning\<close>

lemma duplicated_loop_distinct:
  "distinct xs \<Longrightarrow> set xs \<inter> set seen = {} \<Longrightarrow>
   duplicated_loop seen xs = replicate (length xs) False"
  by (induction xs arbitrary: seen) auto

lemma duplicated_distinct: "distinct xs \<Longrightarrow> duplicated xs = replicate (length xs) False"
  by (simp add: duplicated_def duplicated_loop_distinct)

lemma kept_rows_eq:
  "kept_rows db t = filter (\<lambda>r. \<not> list_all is_na r)
     (select (map Not (duplicated (map (map (strip_cell db)) (rows t))))
        (map (map (strip_cell db)) (rows t)))"
  by (simp add: kept_rows_def dropna_rows_def drop_duplicates_def applymap_def)

lemma kept_columns_eq: "kept_columns db t = notna_mask (length (columns t)) (kept_rows db t)"
  by (simp add: kept_columns_def kept_rows_def notna_columns_def dropna_rows_def
      drop_duplicates_def applymap_def)

lemma clean_eq:
  "clean db t = \<lparr>columns = select (kept_columns db t) (columns t),
              rows = map (select (kept_columns db t)) (kept_rows db t)\<rparr>"
  by (simp add: clean_def dropna_columns_def kept_columns_def kept_rows_def notna_columns_def
      dropna_rows_def drop_duplicates_def applymap_def)

lemma set_kept_rows:
  "set (kept_rows db t) = {r \<in> set (map (map (strip_cell db)) (rows t)). \<not> list_all is_na r}"
  by (simp add: kept_rows_eq set_drop_dups)

lemma kept_rows_length:
  "wf_table t \<Longrightarrow> \<forall>r\<in>set (kept_rows db t). length r = length (columns t)"
  by (auto simp: set_kept_rows wf_table_def list_all_iff)

lemma kept_rows_distinct: "distinct (kept_rows db t)"
  by (simp add: kept_rows_eq distinct_drop_dups)

lemma kept_rows_stripped: "\<forall>r\<in>set (kept_rows db t). map (strip_cell db) r = r"
  by (auto simp: set_kept_rows strip_cell_idem)

lemma kept_rows_subseq: "subseq (kept_rows db t) (map (map (strip_cell db)) (rows t))"
proof -
  have "subseq (kept_rows db t)
          (select (map Not (duplicated (map (map (strip_cell db)) (rows t))))
             (map (map (strip_cell db)) (rows t)))"
    by (simp add: kept_rows_eq)
  moreover have "subseq (select (map Not (duplicated (map (map (strip_cell db)) (rows t))))
             (map (map (strip_cell db)) (rows t))) (map (map (strip_cell db)) (rows t))"
    by (rule subseq_select)
  ultimately show ?thesis by (rule subseq_order.order_trans)
qed

lemma is_na_map_strip [simp]: "list_all is_na (map (strip_cell db) r) = list_all is_na r"
  by (simp add: list_all_iff)

lemma kept_rows_member:
  "r \<in> set (rows t) \<Longrightarrow> \<not> list_all is_na r \<Longrightarrow> map (strip_cell db) r \<in> set (kept_rows db t)"
  by (simp add: set_kept_rows)

lemma kept_masked:
  "wf_table t \<Longrightarrow> r \<in> set (kept_rows db t) \<Longrightarrow>
   \<forall>(b, c)\<in>set (zip (kept_columns db t) r). \<not> b \<longrightarrow> c = Empty"
  unfolding kept_columns_eq by (rule masked_cells_empty [OF kept_rows_length])

lemma clean_rows_distinct:
  assumes "wf_table t"
  shows "distinct (rows (clean db t))"
proof -
  have "inj_on (select (kept_columns db t)) (set (kept_rows db t))"
  proof (rule inj_onI)
    fix r1 r2
    assume r: "r1 \<in> set (kept_rows db t)" "r2 \<in> set (kept_rows db t)"
      and eq: "select (kept_columns db t) r1 = select (kept_columns db t) r2"
    have l: "length r1 = length (kept_columns db t)" "length r2 = length (kept_columns db t)"
      using kept_rows_length [OF assms] r by (simp_all add: kept_columns_eq)
    show "r1 = r2"
      by (rule select_inj [OF l kept_masked [OF assms r(1)] kept_masked [OF assms r(2)] eq])
  qed
  then show ?thesis by (simp add: clean_eq distinct_map kept_rows_distinct)
qed

lemma clean_rows_notna:
  assumes "wf_table t"
  shows "\<forall>r\<in>set (rows (clean db t)). \<not> list_all is_na r"
proof
  fix r' assume "r' \<in> set (rows (clean db t))"
  then obtain r where r: "r \<in> set (kept_rows db t)" "r' = select (kept_columns db t) r"
    by (auto simp: clean_eq)
  have l: "length r = length (kept_columns db t)"
    using kept_rows_length [OF assms] r(1) by (simp add: kept_columns_eq)
  have "\<not> list_all is_na r" using r(1) by (simp add: set_kept_rows)
  then show "\<not> list_all is_na r'"
    using select_notna [OF l kept_masked [OF assms r(1)]] r(2) by blast
qed

lemma clean_rows_stripped: "\<forall>r\<in>set (rows (clean db t)). map (strip_cell db) r = r"
proof
  fix r' assume "r' \<in> set (rows (clean db t))"
  then obtain r where r: "r \<in> set (kept_rows db t)" "r' = select (kept_columns db t) r"
    by (auto simp: clean_eq)
  have "map (strip_cell db) r = map (\<lambda>c. c) r"
    using kept_rows_stripped [of db t] r(1) by simp
  then have "\<forall>c\<in>set r. strip_cell db c = c"
    by (simp only: map_eq_conv)
  then have "\<forall>c\<in>set r'. strip_cell db c = c"
    using set_select_subset [of "kept_columns db t" r] r(2) by blast
  then show "map (strip_cell db) r' = r'" by (simp add: map_idI)
qed

lemma clean_wf:
  assumes "wf_table t"
  shows "wf_table (clean db t)"
proof -
  have "\<And>r. r \<in> set (kept_rows db t) \<Longrightarrow>
          length (select (kept_columns db t) r) = length (select (kept_columns db t) (columns t))"
    using kept_rows_length [OF assms]
    by (intro length_select_mask) (simp_all add: kept_columns_eq)
  then show ?thesis by (simp add: wf_table_def clean_eq list_all_iff)
qed

lemma clean_columns_notna:
  assumes "wf_table t"
  shows "notna_mask (length (columns (clean db t))) (rows (clean db t))
         = replicate (length (columns (clean db t))) True"
  using notna_mask_select [OF kept_rows_length [OF assms] refl]
  by (simp add: clean_eq kept_columns_eq)

lemma clean_fixed:
  assumes len: "\<forall>r\<in>set (rows t). length r = length (columns t)"
    and dist: "distinct (rows t)"
    and notna: "\<forall>r\<in>set (rows t). \<not> list_all is_na r"
    and stripped: "\<forall>r\<in>set (rows t). map (strip_cell db) r = r"
    and cols: "notna_mask (length (columns t)) (rows t) = replicate (length (columns t)) True"
  shows "clean db t = t"
proof -
  have 1: "map (map (strip_cell db)) (rows t) = rows t"
    using stripped by (simp add: map_idI)
  have 2: "select (map Not (duplicated (rows t))) (rows t) = rows t"
    using dist by (simp add: duplicated_distinct select_all)
  have 3: "filter (\<lambda>r. \<not> list_all is_na r) (rows t) = rows t"
    using notna by simp
  have k: "kept_rows db t = rows t" by (simp add: kept_rows_eq 1 2 3)
  have m: "kept_columns db t = replicate (length (columns t)) True"
    by (simp add: kept_columns_eq k cols)
  have "map (select (replicate (length (columns t)) True)) (rows t) = rows t"
    using len by (simp add: select_all map_idI)
  then show ?thesis by (simp add: clean_eq k m select_all)
qed

text \<open>
  Claim C8. Cleaning is idempotent: for every (rectangular) table, trimming the string
  cells, dropping the repeated rows but the first, dropping the empty rows and dropping the
  empty columns a second time returns the table of the first time.
\<close>

theorem clean_idempotent: "wf_table t \<Longrightarrow> clean db (clean db t) = clean db t"
proof (rule clean_fixed)
  assume wf: "wf_table t"
  show "\<forall>r\<in>set (rows (clean db t)). length r = length (columns (clean db t))"
    using clean_wf [OF wf] by (simp add: wf_table_def list_all_iff)
  show "distinct (rows (clean db t))" by (rule clean_rows_distinct [OF wf])
  show "\<forall>r\<in>set (rows (clean db t)). \<not> list_all is_na r" by (rule clean_rows_notna [OF wf])
  show "\<forall>r\<in>set (rows (clean db t)). map (strip_cell db) r = r" by (rule clean_rows_stripped)
  show "notna_mask (length (columns (clean db t))) (rows (clean db t))
         = replicate (length (columns (clean db t))) True"
    by (rule clean_columns_notna [OF wf])
qed

text \<open>
  Claim C10. On the cleaned table the check \<open>df.duplicated().any()\<close> is false, so the
  warning "Existem linhas duplicadas na base." is not among the inconsistencies reported:
  dropping the empty columns after the repeated rows cannot make two kept rows equal.
\<close>

theorem no_duplicate_warning_after_clean:
  "wf_table t \<Longrightarrow> list_ex (\<lambda>d. d) (duplicated (rows (clean db t))) = False
                 \<and> Linhas_duplicadas \<notin> set (inconsistencias (clean db t))"
  using duplicated_distinct [OF clean_rows_distinct [of t db]]
  by (simp add: inconsistencias_def list_ex_iff)

lemma kept_columns_notna:
  assumes wf: "wf_table t" and j: "j < length (columns t)"
    and ex: "list_ex (\<lambda>r. \<not> is_na (r ! j)) (rows t)"
  shows "kept_columns db t ! j"
proof -
  from ex obtain r where r: "r \<in> set (rows t)" "\<not> is_na (r ! j)"
    by (auto simp: list_ex_iff)
  have l: "length r = length (columns t)"
    using wf r(1) by (simp add: wf_table_def list_all_iff)
  then have "r ! j \<in> set r" using j by simp
  then have "\<not> list_all is_na r" using r(2) by (auto simp: list_all_iff)
  then have k: "map (strip_cell db) r \<in> set (kept_rows db t)" by (rule kept_rows_member [OF r(1)])
  have "\<not> is_na (map (strip_cell db) r ! j)" using r(2) l j by simp
  then have "list_ex (\<lambda>r. \<not> is_na (r ! j)) (kept_rows db t)"
    using k by (auto simp: list_ex_iff)
  then show ?thesis using j by (simp add: kept_columns_eq notna_mask_def)
qed

text \<open>
  Claim C5. Cleaning keeps the columns and rows in their order (the columns kept are the
  input columns under a mask, the rows kept are a subsequence of the trimmed input rows
  under that mask), it keeps every column that has a value in some row, and every input
  row that is not entirely empty is, trimmed, among the rows kept.
\<close>

theorem clean_keeps_nonempty:
  assumes "wf_table t"
  shows "columns (clean db t) = select (kept_columns db t) (columns t)
       \<and> length (kept_columns db t) = length (columns t)
       \<and> subseq (columns (clean db t)) (columns t)
       \<and> (\<forall>j<length (columns t).
             list_ex (\<lambda>r. \<not> is_na (r ! j)) (rows t) \<longrightarrow> kept_columns db t ! j)
       \<and> subseq (rows (clean db t))
            (map (\<lambda>r. select (kept_columns db t) (map (strip_cell db) r)) (rows t))
       \<and> (\<forall>r\<in>set (rows t). \<not> list_all is_na r \<longrightarrow>
             select (kept_columns db t) (map (strip_cell db) r) \<in> set (rows (clean db t)))"
proof (intro conjI)
  show "columns (clean db t) = select (kept_columns db t) (columns t)"
    by (simp add: clean_eq)
  show "length (kept_columns db t) = length (columns t)"
    by (simp add: kept_columns_eq)
  show "subseq (columns (clean db t)) (columns t)"
    by (simp add: clean_eq subseq_select)
  show "\<forall>j<length (columns t).
          list_ex (\<lambda>r. \<not> is_na (r ! j)) (rows t) \<longrightarrow> kept_columns db t ! j"
    using kept_columns_notna [OF assms] by blast
  have "subseq (map (select (kept_columns db t)) (kept_rows db t))
          (map (select (kept_columns db t)) (map (map (strip_cell db)) (rows t)))"
    by (rule subseq_map [OF kept_rows_subseq])
  then show "subseq (rows (clean db t))
            (map (\<lambda>r. select (kept_columns db t) (map (strip_cell db) r)) (rows t))"
    by (simp add: clean_eq comp_def)
  show "\<forall>r\<in>set (rows t). \<not> list_all is_na r \<longrightarrow>
          select (kept_columns db t) (map (strip_cell db) r) \<in> set (rows (clean db t))"
    using kept_rows_member [of _ t db] by (auto simp: clean_eq)
qed

theorem clean_keeps_nonempty_witness:
  "wf_table exemplo_sujo
   \<and> clean ascii_db exemplo_sujo
       = \<lparr>columns = map py [''Unit'', ''Person''],
          rows = [[Str (py ''A''), Str (py ''p1'')], [Str (py ''B''), Empty]]\<rparr>
   \<and> subseq (columns (clean ascii_db exemplo_sujo)) (columns exemplo_sujo)
   \<and> subseq (rows (clean ascii_db exemplo_sujo))
        (map (\<lambda>r. select (kept_columns ascii_db exemplo_sujo) (map (strip_cell ascii_db) r))
           (rows exemplo_sujo))"
proof -
  have wf: "wf_table exemplo_sujo" by code_simp
  have c: "clean ascii_db exemplo_sujo
       = \<lparr>columns = map py [''Unit'', ''Person''],
          rows = [[Str (py ''A''), Str (py ''p1'')], [Str (py ''B''), Empty]]\<rparr>" by code_simp
  from clean_keeps_nonempty [OF wf] wf c show ?thesis by blast
qed

theorem clean_idempotent_witness:
  "wf_table exemplo_sujo
   \<and> clean ascii_db (clean ascii_db exemplo_sujo) = clean ascii_db exemplo_sujo"
proof -
  have wf: "wf_table exemplo_sujo" by code_simp
  from wf clean_idempotent [OF wf] show ?thesis by (rule conjI)
qed

lemma inconsistencias_before_drop:
  "inconsistencias (applymap (strip_cell ascii_db) exemplo_sujo)
     = [Valores_ausentes, Linhas_duplicadas]"
  by code_simp

theorem no_duplicate_warning_after_clean_witness:
  "wf_table exemplo_sujo
   \<and> list_ex (\<lambda>d. d) (duplicated (rows (clean ascii_db exemplo_sujo))) = False
   \<and> Linhas_duplicadas \<notin> set (inconsistencias (clean ascii_db exemplo_sujo))"
proof -
  have wf: "wf_table exemplo_sujo" by code_simp
  from wf no_duplicate_warning_after_clean [OF wf] show ?thesis by (rule conjI)
qed

end
